theory Spec2Isabelle
  imports Complex_Main
begin

section \<open>Data model\<close>

text \<open>
  The Rust backend of the repository is given by the code blocks of the build plan
  (\<^verbatim>\<open>start_hotkey_listener\<close>, \<^verbatim>\<open>start_audio_recording\<close>, \<^verbatim>\<open>build_input_stream\<close>,
  \<^verbatim>\<open>compute_rms\<close>, \<^verbatim>\<open>stop_audio_and_transcribe\<close>, \<^verbatim>\<open>set_active_model\<close>,
  \<^verbatim>\<open>run_whisper_on_buffer\<close>, \<^verbatim>\<open>copy_to_clipboard\<close>, \<^verbatim>\<open>simulate_ctrl_v\<close>,
  \<^verbatim>\<open>copy_to_clipboard_and_paste\<close>). Each of them becomes a function on an explicit
  application state. Samples are \<^verbatim>\<open>f32\<close> in the source and \<^typ>\<open>real\<close> here: rounding of
  floating-point arithmetic is not modelled.
\<close>

text \<open>Keys and key events of \<^verbatim>\<open>rdev\<close>, as far as the code names them.\<close>

datatype key = ControlRight | ControlLeft | AltRight | KeyV | OtherKey

datatype event_type = KeyPress key | KeyRelease key

text \<open>
  Transcribed text is a Rust \<^verbatim>\<open>String\<close>; it is modelled as the list of its Unicode scalar
  values, which is what \<^verbatim>\<open>trim\<close> works on. Paths and error messages are opaque strings.
\<close>

type_synonym transcript = "nat list"

text \<open>
  The events sent to the frontend with \<^verbatim>\<open>app.emit_all\<close>. The frontend (\<^verbatim>\<open>Overlay.tsx\<close>)
  listens for seven names.
\<close>

datatype notification =
    Recording_started
  | Audio_level real
  | Recording_stopped
  | Transcription_started
  | Transcription_done transcript
  | Transcription_error
  | No_model_selected

text \<open>\<^verbatim>\<open>WhisperContext\<close>: a loaded model, identified by the path it was created from.\<close>

datatype whisper_context = WhisperContext string

record whisper_state =
  ctx :: "whisper_context option"
  model_path :: "string option"

text \<open>
  The two calls into \<^verbatim>\<open>whisper-rs\<close>: \<^verbatim>\<open>WhisperContext::new\<close> (\<open>Inl\<close> carries the error
  message) and \<^verbatim>\<open>ctx.full\<close> followed by the reads of the segments (\<open>None\<close> when
  \<^verbatim>\<open>full\<close> fails; a segment whose text cannot be read is \<open>None\<close>).
\<close>

record whisper_lib =
  ctx_new :: "string \<Rightarrow> string + whisper_context"
  ctx_full :: "whisper_context \<Rightarrow> real list \<Rightarrow> transcript option list option"

text \<open>What the operating system answers when the clipboard is opened and written.\<close>

datatype clipboard_outcome = No_clipboard | Set_text_failed | Set_text_ok

text \<open>
  The application state: \<^verbatim>\<open>RecordingState\<close> (\<open>is_recording\<close>), \<^verbatim>\<open>AudioContext\<close>
  (\<open>stream\<close>, holding the channel count of the stream that is stored, and \<open>buffer\<close>),
  \<^verbatim>\<open>WhisperState\<close> (\<open>whisper\<close>), the threads that were spawned and have not finished,
  and what the code does to the outside. The threads: those spawned by
  \<^verbatim>\<open>start_audio_recording\<close> that have not run yet (\<open>starting\<close>), those spawned by
  \<^verbatim>\<open>stop_audio_and_transcribe\<close> that have not yet taken the lock of the
  \<^verbatim>\<open>AudioContext\<close> (\<open>stopping\<close>), and those that have, each with its copy of the
  buffer (\<open>workers\<close>). The outside: the events emitted (\<open>emitted\<close>), the clipboard
  content (\<open>clipboard\<close>), the calls of \<^verbatim>\<open>simulate\<close> (\<open>simulated\<close>), the sample
  lists passed to \<^verbatim>\<open>ctx.full\<close> (\<open>inferences\<close>). \<open>poisoned\<close> says that a thread
  panicked while it held the lock of the \<^verbatim>\<open>AudioContext\<close>: every later
  \<^verbatim>\<open>audio_ctx.lock().unwrap()\<close> panics.
\<close>

record app =
  is_recording :: bool
  stream :: "nat option"
  buffer :: "real list"
  poisoned :: bool
  whisper :: whisper_state
  starting :: nat
  stopping :: nat
  workers :: "real list list"
  emitted :: "notification list"
  clipboard :: "transcript option"
  simulated :: "event_type list"
  inferences :: "real list list"

definition init :: app where
  "init = \<lparr> is_recording = False, stream = None, buffer = [], poisoned = False,
            whisper = \<lparr> ctx = None, model_path = None \<rparr>, starting = 0, stopping = 0,
            workers = [], emitted = [], clipboard = None, simulated = [],
            inferences = [] \<rparr>"

definition emit_all :: "notification \<Rightarrow> app \<Rightarrow> app" where
  "emit_all n s = s\<lparr>emitted := emitted s @ [n]\<rparr>"

section \<open>Audio capture\<close>

text \<open>
  \<^verbatim>\<open>compute_rms\<close>: 0 for no samples, else the square root of the mean of the squares.
\<close>

definition compute_rms :: "real list \<Rightarrow> real" where
  "compute_rms samples =
     (if samples = [] then 0
      else sqrt (sum_list (map (\<lambda>s. s * s) samples) / real (length samples)))"

text \<open>
  \<^verbatim>\<open>for frame in data.chunks(channels) { ... frame[0] ... }\<close>: the first sample of every
  chunk of \<open>channels\<close> samples (the last chunk may be shorter, never empty). The
  conversion \<^verbatim>\<open>to_f32\<close> is applied to the data before. A chunk size of 0 panics in Rust;
  the callback below handles that case before it calls this function.
\<close>

fun first_channel :: "nat \<Rightarrow> real list \<Rightarrow> real list" where
  "first_channel channels [] = []"
| "first_channel channels (x # xs) = x # first_channel channels (drop (channels - 1) xs)"

text \<open>
  The data callback of \<^verbatim>\<open>build_input_stream\<close>: lock, push the first channel of every
  frame, emit the level of the whole buffer.
\<close>

definition data_callback :: "nat \<Rightarrow> real list \<Rightarrow> app \<Rightarrow> app" where
  "data_callback channels data s =
     (if poisoned s then s
      else if channels = 0 then s\<lparr>poisoned := True\<rparr>
      else let s1 = s\<lparr>buffer := buffer s @ first_channel channels data\<rparr>
           in emit_all (Audio_level (compute_rms (buffer s1))) s1)"

text \<open>
  \<^verbatim>\<open>start_audio_recording\<close> spawns a thread and returns.
\<close>

definition start_audio_recording :: "app \<Rightarrow> app" where
  "start_audio_recording s = s\<lparr>starting := Suc (starting s)\<rparr>"

text \<open>
  The thread spawned by \<^verbatim>\<open>start_audio_recording\<close>, with \<^verbatim>\<open>build_input_stream\<close>. The
  argument is what the thread finds when it opens the default input device: its channel
  count, or nothing usable, in which case the thread panics at an \<^verbatim>\<open>expect\<close>. With a
  device the stream is built and played and then stored under the lock, in place of the
  stream stored before; a poisoned lock makes the thread panic, which drops the stream it
  built. The code does not look at \<open>is_recording\<close> here.
\<close>

definition start_audio_thread :: "nat option \<Rightarrow> app \<Rightarrow> app" where
  "start_audio_thread device s =
     (if starting s = 0 then s
      else let s1 = s\<lparr>starting := starting s - 1\<rparr> in
        case device of
          None \<Rightarrow> s1
        | Some channels \<Rightarrow> if poisoned s1 then s1 else s1\<lparr>stream := Some channels\<rparr>)"

section \<open>Transcription engine\<close>

text \<open>\<^verbatim>\<open>set_active_model\<close>: the state is written only after the context was created.\<close>

definition set_active_model ::
  "whisper_lib \<Rightarrow> string \<Rightarrow> whisper_state \<Rightarrow> (string + unit) \<times> whisper_state" where
  "set_active_model lib path ws =
     (case ctx_new lib path of
        Inl e \<Rightarrow> (Inl e, ws)
      | Inr c \<Rightarrow> (Inr (), ws\<lparr>ctx := Some c, model_path := Some path\<rparr>))"

text \<open>\<^verbatim>\<open>char::is_whitespace\<close>: the code points with the Unicode property White_Space.\<close>

definition is_whitespace :: "nat \<Rightarrow> bool" where
  "is_whitespace c \<longleftrightarrow>
     (9 \<le> c \<and> c \<le> 13) \<or> c = 32 \<or> c = 133 \<or> c = 160 \<or> c = 5760 \<or>
     (8192 \<le> c \<and> c \<le> 8202) \<or> c = 8232 \<or> c = 8233 \<or> c = 8239 \<or> c = 8287 \<or> c = 12288"

definition trim :: "transcript \<Rightarrow> transcript" where
  "trim t = rev (dropWhile is_whitespace (rev (dropWhile is_whitespace t)))"

datatype model_error = NotLoaded

text \<open>
  Modelled from the spec: how \<^verbatim>\<open>run_whisper_on_buffer\<close> gets the context out of the
  \<^verbatim>\<open>WhisperState\<close>. The source elides that expression
  (\<^verbatim>\<open>let ctx: &mut whisper_rs::WhisperContext = /* ... */;\<close>); the spec says that
  transcription fails with \<^verbatim>\<open>ModelError::NotLoaded\<close> if no model is loaded.
\<close>

definition loaded_ctx :: "whisper_state \<Rightarrow> model_error + whisper_context" where
  "loaded_ctx ws = (case ctx ws of None \<Rightarrow> Inl NotLoaded | Some c \<Rightarrow> Inr c)"

text \<open>
  \<^verbatim>\<open>run_whisper_on_buffer\<close>: the result type of the source is \<^verbatim>\<open>Option<String>\<close>, so every
  failure is \<open>None\<close>. After the context is there, \<^verbatim>\<open>ctx.full\<close> runs on the samples; the
  segments are concatenated (\<^verbatim>\<open>unwrap_or_default\<close> gives the empty string for a segment
  that cannot be read) and trimmed.
\<close>

definition run_whisper_on_buffer :: "whisper_lib \<Rightarrow> real list \<Rightarrow> app \<Rightarrow> transcript option \<times> app" where
  "run_whisper_on_buffer lib samples s =
     (case loaded_ctx (whisper s) of
        Inl e \<Rightarrow> (None, s)
      | Inr c \<Rightarrow>
          (let s1 = s\<lparr>inferences := inferences s @ [samples]\<rparr> in
           case ctx_full lib c samples of
             None \<Rightarrow> (None, s1)
           | Some segs \<Rightarrow>
               (Some (trim (concat (map (\<lambda>seg. case seg of None \<Rightarrow> [] | Some t \<Rightarrow> t) segs))), s1)))"

text \<open>
  Modelled from the spec: the event for a transcription that gave no text. The source
  emits \<^verbatim>\<open>transcription_error\<close> whenever \<^verbatim>\<open>run_whisper_on_buffer\<close> returns \<open>None\<close>, which
  is what \<^verbatim>\<open>ctx.full\<close> failing gives; what it does with no model loaded lies in the
  expression it elides. The spec reports that case as \<^verbatim>\<open>no_model_selected\<close>, the event
  the overlay of the frontend listens for.
\<close>

definition failure_notification :: "whisper_state \<Rightarrow> notification" where
  "failure_notification ws =
     (case loaded_ctx ws of Inl NotLoaded \<Rightarrow> No_model_selected | Inr c \<Rightarrow> Transcription_error)"

section \<open>Clipboard and paste\<close>

text \<open>
  \<^verbatim>\<open>copy_to_clipboard\<close>: the text is written if the clipboard can be opened; the result of
  \<^verbatim>\<open>set_text\<close> is discarded (\<^verbatim>\<open>let _ =\<close>) and nothing is returned.
\<close>

definition copy_to_clipboard :: "clipboard_outcome \<Rightarrow> transcript \<Rightarrow> app \<Rightarrow> app" where
  "copy_to_clipboard outcome t s =
     (case outcome of
        No_clipboard \<Rightarrow> s
      | Set_text_failed \<Rightarrow> s
      | Set_text_ok \<Rightarrow> s\<lparr>clipboard := Some t\<rparr>)"

text \<open>\<^verbatim>\<open>simulate_ctrl_v\<close>: four calls of \<^verbatim>\<open>simulate\<close>, their results discarded.\<close>

definition simulate_ctrl_v :: "app \<Rightarrow> app" where
  "simulate_ctrl_v s =
     s\<lparr>simulated := simulated s @
        [KeyPress ControlLeft, KeyPress KeyV, KeyRelease KeyV, KeyRelease ControlLeft]\<rparr>"

definition copy_to_clipboard_and_paste :: "clipboard_outcome \<Rightarrow> transcript \<Rightarrow> app \<Rightarrow> app" where
  "copy_to_clipboard_and_paste outcome t s = simulate_ctrl_v (copy_to_clipboard outcome t s)"

section \<open>Stopping a recording\<close>

text \<open>\<^verbatim>\<open>stop_audio_and_transcribe\<close> spawns a worker thread and returns.\<close>

definition stop_audio_and_transcribe :: "app \<Rightarrow> app" where
  "stop_audio_and_transcribe s = s\<lparr>stopping := Suc (stopping s)\<rparr>"

text \<open>
  The first block of the worker thread, under the lock of the \<^verbatim>\<open>AudioContext\<close>: it takes
  and drops the stream that is stored, copies the buffer and clears it. A poisoned lock
  makes the worker panic there: the thread ends and emits nothing.
\<close>

definition worker_take_buffer :: "app \<Rightarrow> app" where
  "worker_take_buffer s =
     (if stopping s = 0 then s
      else let s1 = s\<lparr>stopping := stopping s - 1\<rparr> in
        if poisoned s1 then s1
        else s1\<lparr>stream := None, buffer := [], workers := workers s1 @ [buffer s1]\<rparr>)"

text \<open>
  The rest of the worker thread, on its copy of the buffer: transcription, then clipboard
  and paste and \<^verbatim>\<open>transcription_done\<close> for a text, and the event of the failure for none.
\<close>

definition worker_finish :: "whisper_lib \<Rightarrow> clipboard_outcome \<Rightarrow> real list \<Rightarrow> app \<Rightarrow> app" where
  "worker_finish lib outcome buf s =
     (case run_whisper_on_buffer lib buf s of
        (Some t, s1) \<Rightarrow> emit_all (Transcription_done t) (copy_to_clipboard_and_paste outcome t s1)
      | (None, s1) \<Rightarrow> emit_all (failure_notification (whisper s)) s1)"

section \<open>Hotkey listener\<close>

text \<open>The callback passed to \<^verbatim>\<open>listen\<close> in \<^verbatim>\<open>start_hotkey_listener\<close>.\<close>

definition hotkey_callback :: "event_type \<Rightarrow> app \<Rightarrow> app" where
  "hotkey_callback ev s =
     (case ev of
        KeyPress k \<Rightarrow>
          if k = ControlRight then
            (if \<not> is_recording s
             then start_audio_recording (emit_all Recording_started (s\<lparr>is_recording := True\<rparr>))
             else stop_audio_and_transcribe (emit_all Recording_stopped (s\<lparr>is_recording := False\<rparr>)))
          else s
      | KeyRelease k \<Rightarrow> s)"

section \<open>The system as a whole\<close>

text \<open>
  The code runs on several threads: the hook thread of \<^verbatim>\<open>rdev\<close>, the audio thread of
  \<^verbatim>\<open>cpal\<close>, and the threads spawned at every start and stop, which nothing orders. The
  model is a sequence of atomic steps, in any order: \<^verbatim>\<open>rdev\<close> delivers a key event (the
  hotkey callback runs; it only sets the flag, emits and spawns); a thread spawned by
  \<^verbatim>\<open>start_audio_recording\<close> runs; \<^verbatim>\<open>cpal\<close> delivers interleaved samples to the data
  callback of the stream that is stored; a worker takes the lock and runs its first block;
  the worker at position \<open>i\<close> of \<open>workers\<close> finishes (with the answer of the
  clipboard); the frontend invokes \<^verbatim>\<open>set_active_model\<close>. A stream starts to deliver
  samples when it is stored.
\<close>

datatype sys_event =
    Hook event_type
  | Start_thread "nat option"
  | Data "real list"
  | Stop_thread
  | Worker_done nat clipboard_outcome
  | Set_active_model string

definition step :: "whisper_lib \<Rightarrow> sys_event \<Rightarrow> app \<Rightarrow> app" where
  "step lib e s =
     (case e of
        Hook ev \<Rightarrow> hotkey_callback ev s
      | Start_thread device \<Rightarrow> start_audio_thread device s
      | Data d \<Rightarrow> (case stream s of None \<Rightarrow> s | Some channels \<Rightarrow> data_callback channels d s)
      | Stop_thread \<Rightarrow> worker_take_buffer s
      | Worker_done i outcome \<Rightarrow>
          if i < length (workers s)
          then worker_finish lib outcome (workers s ! i)
                 (s\<lparr>workers := take i (workers s) @ drop (Suc i) (workers s)\<rparr>)
          else s
      | Set_active_model path \<Rightarrow> s\<lparr>whisper := snd (set_active_model lib path (whisper s))\<rparr>)"

fun run :: "whisper_lib \<Rightarrow> sys_event list \<Rightarrow> app \<Rightarrow> app" where
  "run lib [] s = s"
| "run lib (e # es) s = run lib es (step lib e s)"

text \<open>A toggle is a press of the right control key.\<close>

abbreviation toggle :: sys_event where
  "toggle \<equiv> Hook (KeyPress ControlRight)"

section \<open>Resampler\<close>

text \<open>
  Modelled from the spec: the Resampler (section 4.4 of the spec). The source has only the
  declaration \<^verbatim>\<open>fn resample_to_16khz(samples: &[f32], source_rate: u32) -> Result<Vec<f32>, String>\<close>
  in the development log; the function itself is not there. The spec gives the output
  length, \<open>round (inputLength * targetRate / sourceRate)\<close>, and the case of equal rates;
  it does not fix the interpolation, which is a parameter here (the value of output
  sample \<open>i\<close>, from the input and the two rates).
\<close>

definition resample_len :: "nat \<Rightarrow> nat \<Rightarrow> nat \<Rightarrow> nat" where
  "resample_len n source_rate target_rate =
     nat (round (real n * real target_rate / real source_rate))"

definition resample ::
  "(real list \<Rightarrow> nat \<Rightarrow> nat \<Rightarrow> nat \<Rightarrow> real) \<Rightarrow> real list \<Rightarrow> nat \<Rightarrow> nat \<Rightarrow> real list" where
  "resample interpolate x source_rate target_rate =
     (if source_rate = target_rate then x
      else map (interpolate x source_rate target_rate)
             [0..<resample_len (length x) source_rate target_rate])"

section \<open>Observations used in the properties\<close>

text \<open>The samples a system event hands to the data callback.\<close>

fun samples_of :: "sys_event \<Rightarrow> real list" where
  "samples_of (Data d) = d"
| "samples_of _ = []"

text \<open>
  The samples the data callback of a stream with the given channel count pushes for a
  list of events (nothing without a stream).
\<close>

fun session_samples :: "nat option \<Rightarrow> sys_event list \<Rightarrow> real list" where
  "session_samples None es = []"
| "session_samples (Some channels) [] = []"
| "session_samples (Some channels) (Data d # es) =
     first_channel channels d @ session_samples (Some channels) es"
| "session_samples (Some channels) (e # es) = session_samples (Some channels) es"

text \<open>
  A state between recordings in which every spawned thread has run: nothing is recorded,
  no thread waits, no stream is stored, the buffer is empty.
\<close>

definition quiet :: "app \<Rightarrow> bool" where
  "quiet s \<longleftrightarrow> \<not> is_recording s \<and> starting s = 0 \<and> stopping s = 0 \<and> stream s = None \<and>
               buffer s = [] \<and> \<not> poisoned s"

text \<open>
  The state the spec speaks of, read off the application state: capturing while
  \<open>is_recording\<close>, else transcribing while a worker thread has not finished.
\<close>

datatype phase = Idle | Capturing | Transcribing

definition phase :: "app \<Rightarrow> phase" where
  "phase s = (if is_recording s then Capturing
              else if 0 < stopping s \<or> workers s \<noteq> [] then Transcribing else Idle)"

text \<open>
  The moves of the observed state in one step: those of the cycle
  \<open>Idle \<rightarrow> Capturing \<rightarrow> Transcribing \<rightarrow> Idle\<close>, the move from \<open>Transcribing\<close> to
  \<open>Capturing\<close>, and staying.
\<close>

fun walk :: "phase \<Rightarrow> phase \<Rightarrow> bool" where
  "walk Idle Capturing = True"
| "walk Capturing Transcribing = True"
| "walk Transcribing Idle = True"
| "walk Transcribing Capturing = True"
| "walk p q = (p = q)"

text \<open>
  A reader of the emitted events that checks the order of starts, stops and final events.
  It keeps whether a recording is open and how many stopped recordings wait for their
  final event, and it rejects (\<open>None\<close>): a start while a recording is open, a stop while
  none is open, and a final event (\<^verbatim>\<open>transcription_done\<close>, \<^verbatim>\<open>transcription_error\<close>,
  \<^verbatim>\<open>no_model_selected\<close>) when no stopped recording waits for one. It reads over
  \<^verbatim>\<open>audio_level\<close> and \<^verbatim>\<open>transcription_started\<close>.
\<close>

fun session_order :: "bool \<times> nat \<Rightarrow> notification list \<Rightarrow> (bool \<times> nat) option" where
  "session_order st [] = Some st"
| "session_order (recording, pending) (n # ns) =
     (case n of
        Recording_started \<Rightarrow> if recording then None else session_order (True, pending) ns
      | Audio_level x \<Rightarrow> session_order (recording, pending) ns
      | Recording_stopped \<Rightarrow> if recording then session_order (False, Suc pending) ns else None
      | Transcription_started \<Rightarrow> session_order (recording, pending) ns
      | Transcription_done t \<Rightarrow>
          if 0 < pending then session_order (recording, pending - 1) ns else None
      | Transcription_error \<Rightarrow>
          if 0 < pending then session_order (recording, pending - 1) ns else None
      | No_model_selected \<Rightarrow>
          if 0 < pending then session_order (recording, pending - 1) ns else None)"

text \<open>The first event, if there is one, is \<^verbatim>\<open>recording_started\<close>.\<close>

fun first_is_start :: "notification list \<Rightarrow> bool" where
  "first_is_start [] = True"
| "first_is_start (n # ns) = (n = Recording_started)"

text \<open>The key events of the paste gesture, in the order \<^verbatim>\<open>simulate_ctrl_v\<close> sends them.\<close>

definition paste_keys :: "event_type list" where
  "paste_keys = [KeyPress ControlLeft, KeyPress KeyV, KeyRelease KeyV, KeyRelease ControlLeft]"

text \<open>
  Two invariants of the reachable states. Before the first event is emitted, nothing is
  recorded, no stream is stored and no thread was spawned. The emitted events pass \<open>session_order\<close>, which ends
  with the recording flag and at least as many waiting recordings as there are workers
  (as many, unless the lock is poisoned).
\<close>

definition fresh_inv :: "app \<Rightarrow> bool" where
  "fresh_inv s \<longleftrightarrow>
     first_is_start (emitted s) \<and>
     (emitted s = [] \<longrightarrow>
        \<not> is_recording s \<and> stream s = None \<and> starting s = 0 \<and> stopping s = 0 \<and> workers s = [])"

definition order_inv :: "app \<Rightarrow> bool" where
  "order_inv s \<longleftrightarrow>
     (\<exists>k. session_order (False, 0) (emitted s) = Some (is_recording s, k) \<and>
          stopping s + length (workers s) \<le> k \<and>
          (\<not> poisoned s \<longrightarrow> k = stopping s + length (workers s)))"

text \<open>
  A concrete \<^verbatim>\<open>whisper-rs\<close> for the examples: one model file exists; inference gives one
  segment of white space (\<^verbatim>\<open>" \n"\<close>) for silence, and else three segments (the second
  unreadable) that make \<^verbatim>\<open>" hi!\n"\<close>.
\<close>

definition lib0 :: whisper_lib where
  "lib0 = \<lparr> ctx_new = (\<lambda>p. if p = ''ggml-base.en.bin'' then Inr (WhisperContext p)
                            else Inl ''failed to open model''),
            ctx_full = (\<lambda>c samples. if list_all (\<lambda>x. x = 0) samples then Some [Some [32, 10]]
                                      else Some [Some [32, 104, 105], None, Some [33, 10]]) \<rparr>"

section \<open>Basic facts\<close>

lemmas sys_defs = step_def hotkey_callback_def emit_all_def start_audio_recording_def
  start_audio_thread_def stop_audio_and_transcribe_def worker_take_buffer_def worker_finish_def
  run_whisper_on_buffer_def loaded_ctx_def failure_notification_def data_callback_def
  set_active_model_def copy_to_clipboard_and_paste_def copy_to_clipboard_def simulate_ctrl_v_def

lemma run_append: "run lib (es @ fs) s = run lib fs (run lib es s)"
  by (induction es arbitrary: s) auto

lemma run_snoc: "run lib (es @ [e]) s = step lib e (run lib es s)"
  by (simp add: run_append)

subsection \<open>The level meter\<close>

lemma sum_sq_nonneg: "0 \<le> sum_list (map (\<lambda>s. s * s) (xs::real list))"
  by (induction xs) auto

lemma sum_sq_le_length:
  "\<forall>s\<in>set xs. - 1 \<le> s \<and> s \<le> 1 \<Longrightarrow>
     sum_list (map (\<lambda>s. s * s) (xs::real list)) \<le> real (length xs)"
proof (induction xs)
  case Nil
  then show ?case by simp
next
  case (Cons x xs)
  then have "x * x \<le> 1"
    by (metis abs_le_iff abs_mult_self_eq list.set_intros(1) mult_le_one abs_ge_zero minus_le_iff)
  with Cons show ?case by simp
qed

lemma compute_rms_range:
  assumes "\<forall>s\<in>set xs. - 1 \<le> s \<and> s \<le> 1"
  shows "0 \<le> compute_rms xs \<and> compute_rms xs \<le> 1"
proof (cases "xs = []")
  case True
  then show ?thesis by (simp add: compute_rms_def)
next
  case False
  then have len: "0 < real (length xs)" by simp
  have "sum_list (map (\<lambda>s. s * s) xs) / real (length xs) \<le> 1"
    using sum_sq_le_length[OF assms] len by simp
  moreover have "0 \<le> sum_list (map (\<lambda>s. s * s) xs) / real (length xs)"
    using sum_sq_nonneg[of xs] by simp
  ultimately show ?thesis using False by (simp add: compute_rms_def)
qed

lemma compute_rms_silence:
  assumes "\<forall>s\<in>set xs. s = 0"
  shows "compute_rms xs = 0"
proof -
  have "sum_list (map (\<lambda>s. s * s) xs) = 0" using assms by (induction xs) auto
  then show ?thesis by (simp add: compute_rms_def)
qed

lemma set_first_channel: "set (first_channel n xs) \<subseteq> set xs"
proof (induction n xs rule: first_channel.induct)
  case (1 channels)
  then show ?case by simp
next
  case (2 channels x xs)
  then show ?case using set_drop_subset[of "channels - 1" xs] by auto
qed

lemma step_levels_range:
  assumes "\<forall>x\<in>set (samples_of e). - 1 \<le> x \<and> x \<le> 1"
    and "\<forall>x\<in>set (buffer s). - 1 \<le> x \<and> x \<le> 1"
    and "\<forall>x. Audio_level x \<in> set (emitted s) \<longrightarrow> 0 \<le> x \<and> x \<le> 1"
  shows "(\<forall>x\<in>set (buffer (step lib e s)). - 1 \<le> x \<and> x \<le> 1) \<and>
         (\<forall>x. Audio_level x \<in> set (emitted (step lib e s)) \<longrightarrow> 0 \<le> x \<and> x \<le> 1)"
proof (cases e)
  case (Data d)
  show ?thesis
  proof (cases "stream s")
    case None
    with Data assms show ?thesis by (simp add: step_def)
  next
    case (Some ch)
    have b: "\<forall>x\<in>set (buffer s @ first_channel ch d). - 1 \<le> x \<and> x \<le> 1"
      using assms(1,2) set_first_channel[of ch d] Data by auto
    from compute_rms_range[OF b] Data Some assms b show ?thesis
      by (auto simp: step_def data_callback_def emit_all_def Let_def)
  qed
qed (use assms in \<open>auto simp: sys_defs Let_def
       split: event_type.splits option.splits sum.splits clipboard_outcome.splits prod.splits\<close>)

lemma run_levels_range:
  assumes "\<forall>e\<in>set es. \<forall>x\<in>set (samples_of e). - 1 \<le> x \<and> x \<le> 1"
    and "\<forall>x\<in>set (buffer s). - 1 \<le> x \<and> x \<le> 1"
    and "\<forall>x. Audio_level x \<in> set (emitted s) \<longrightarrow> 0 \<le> x \<and> x \<le> 1"
  shows "\<forall>x. Audio_level x \<in> set (emitted (run lib es s)) \<longrightarrow> 0 \<le> x \<and> x \<le> 1"
  using assms
proof (induction es arbitrary: s)
  case Nil
  then show ?case by simp
next
  case (Cons e es)
  have "\<forall>x\<in>set (samples_of e). - 1 \<le> x \<and> x \<le> 1" using Cons.prems(1) by simp
  from step_levels_range[OF this Cons.prems(2,3), of lib] Cons.IH[of "step lib e s"] Cons.prems(1)
  show ?case by simp
qed

lemma step_levels_silence:
  assumes "\<forall>x\<in>set (samples_of e). x = 0"
    and "\<forall>x\<in>set (buffer s). x = 0"
    and "\<forall>x. Audio_level x \<in> set (emitted s) \<longrightarrow> x = 0"
  shows "(\<forall>x\<in>set (buffer (step lib e s)). x = 0) \<and>
         (\<forall>x. Audio_level x \<in> set (emitted (step lib e s)) \<longrightarrow> x = 0)"
proof (cases e)
  case (Data d)
  show ?thesis
  proof (cases "stream s")
    case None
    with Data assms show ?thesis by (simp add: step_def)
  next
    case (Some ch)
    have b: "\<forall>x\<in>set (buffer s @ first_channel ch d). x = 0"
      using assms(1,2) set_first_channel[of ch d] Data by auto
    from compute_rms_silence[OF b] Data Some assms b show ?thesis
      by (auto simp: step_def data_callback_def emit_all_def Let_def)
  qed
qed (use assms in \<open>auto simp: sys_defs Let_def
       split: event_type.splits option.splits sum.splits clipboard_outcome.splits prod.splits\<close>)

lemma run_levels_silence:
  assumes "\<forall>e\<in>set es. \<forall>x\<in>set (samples_of e). x = 0"
    and "\<forall>x\<in>set (buffer s). x = 0"
    and "\<forall>x. Audio_level x \<in> set (emitted s) \<longrightarrow> x = 0"
  shows "\<forall>x. Audio_level x \<in> set (emitted (run lib es s)) \<longrightarrow> x = 0"
  using assms
proof (induction es arbitrary: s)
  case Nil
  then show ?case by simp
next
  case (Cons e es)
  have "\<forall>x\<in>set (samples_of e). x = 0" using Cons.prems(1) by simp
  from step_levels_silence[OF this Cons.prems(2,3), of lib] Cons.IH[of "step lib e s"] Cons.prems(1)
  show ?case by simp
qed

subsection \<open>Reachable states\<close>

lemmas all_splits = event_type.splits option.splits sum.splits clipboard_outcome.splits
  prod.splits model_error.splits

text \<open>A poisoned lock stays poisoned; it is never poisoned without a device of 0 channels.\<close>

lemma step_poisoned: "poisoned s \<Longrightarrow> poisoned (step lib e s)"
  by (cases e) (auto simp: sys_defs Let_def split: all_splits)

lemma run_poisoned: "poisoned s \<Longrightarrow> poisoned (run lib es s)"
  by (induction es arbitrary: s) (auto simp: step_poisoned)

lemma never_poisoned_step:
  assumes "e \<noteq> Start_thread (Some 0)" "\<not> poisoned s" "stream s \<noteq> Some 0"
  shows "\<not> poisoned (step lib e s) \<and> stream (step lib e s) \<noteq> Some 0"
  using assms by (cases e) (auto simp: sys_defs Let_def split: all_splits key.splits)

lemma never_poisoned_run:
  assumes "\<forall>e\<in>set es. e \<noteq> Start_thread (Some 0)" "\<not> poisoned s" "stream s \<noteq> Some 0"
  shows "\<not> poisoned (run lib es s)"
  using assms
proof (induction es arbitrary: s)
  case Nil
  then show ?case by simp
next
  case (Cons e es)
  then show ?case using never_poisoned_step[of e s lib] by simp
qed

lemma never_poisoned:
  "\<forall>e\<in>set es. e \<noteq> Start_thread (Some 0) \<Longrightarrow> \<not> poisoned (run lib es init)"
  by (rule never_poisoned_run) (simp_all add: init_def)

text \<open>Starts and stops are counted in step with the recording flag.\<close>

lemma step_started_stopped:
  assumes "count_list (emitted s) Recording_started
             = count_list (emitted s) Recording_stopped + (if is_recording s then 1 else 0)"
  shows "count_list (emitted (step lib e s)) Recording_started
           = count_list (emitted (step lib e s)) Recording_stopped
             + (if is_recording (step lib e s) then 1 else 0)"
  using assms by (cases e) (auto simp: sys_defs Let_def split: all_splits key.splits)

lemma run_started_stopped:
  assumes "count_list (emitted s) Recording_started
             = count_list (emitted s) Recording_stopped + (if is_recording s then 1 else 0)"
  shows "count_list (emitted (run lib es s)) Recording_started
           = count_list (emitted (run lib es s)) Recording_stopped
             + (if is_recording (run lib es s) then 1 else 0)"
  using assms
proof (induction es arbitrary: s)
  case Nil
  then show ?case by simp
next
  case (Cons e es)
  from Cons.IH[OF step_started_stopped[OF Cons.prems, of lib e]] show ?case by simp
qed

text \<open>One step moves the observed state along \<open>walk\<close>.\<close>

lemma step_walk: "walk (phase s) (phase (step lib e s))"
proof (cases e)
  case (Hook ev)
  then show ?thesis
    by (cases "is_recording s"; cases "workers s = []"; cases "stopping s = 0")
       (auto simp: phase_def sys_defs Let_def split: all_splits key.splits)
next
  case (Start_thread device)
  then show ?thesis
    by (cases "is_recording s"; cases "workers s = []"; cases "stopping s = 0")
       (auto simp: phase_def sys_defs Let_def split: all_splits)
next
  case (Data d)
  then show ?thesis
    by (cases "is_recording s"; cases "workers s = []"; cases "stopping s = 0")
       (auto simp: phase_def sys_defs Let_def split: all_splits)
next
  case Stop_thread
  then show ?thesis
    by (cases "is_recording s"; cases "workers s = []"; cases "stopping s = 0")
       (auto simp: phase_def sys_defs Let_def split: all_splits)
next
  case (Worker_done i outcome)
  then show ?thesis
    by (cases "is_recording s"; cases "workers s = []"; cases "stopping s = 0")
       (auto simp: phase_def sys_defs Let_def split: all_splits)
next
  case (Set_active_model path)
  then show ?thesis
    by (cases "is_recording s"; cases "workers s = []"; cases "stopping s = 0")
       (auto simp: phase_def step_def)
qed

subsection \<open>The order of the emitted events\<close>

lemma session_order_append:
  "session_order st (xs @ ys)
     = (case session_order st xs of None \<Rightarrow> None | Some st' \<Rightarrow> session_order st' ys)"
proof (induction xs arbitrary: st)
  case Nil
  then show ?case by simp
next
  case (Cons n xs)
  obtain r p where st: "st = (r, p)" by (cases st)
  show ?case unfolding st using Cons.IH
    by (cases n) auto
qed

lemma first_is_start_append: "xs \<noteq> [] \<Longrightarrow> first_is_start (xs @ ys) = first_is_start xs"
  by (cases xs) auto

lemma step_fresh_inv:
  assumes "fresh_inv s"
  shows "fresh_inv (step lib e s)"
proof (cases "emitted s = []")
  case True
  then show ?thesis using assms unfolding fresh_inv_def
    by (cases e) (auto simp: sys_defs Let_def split: all_splits key.splits)
next
  case False
  then show ?thesis using assms unfolding fresh_inv_def
    by (cases e) (auto simp: sys_defs Let_def first_is_start_append split: all_splits key.splits)
qed

lemma run_fresh_inv: "fresh_inv s \<Longrightarrow> fresh_inv (run lib es s)"
  by (induction es arbitrary: s) (auto simp: step_fresh_inv)

lemma init_fresh_inv: "fresh_inv init"
  by (simp add: fresh_inv_def init_def)

lemma step_order_inv:
  assumes "order_inv s"
  shows "order_inv (step lib e s)"
proof -
  from assms obtain k where
    k: "session_order (False, 0) (emitted s) = Some (is_recording s, k)"
      "stopping s + length (workers s) \<le> k"
      "\<not> poisoned s \<longrightarrow> k = stopping s + length (workers s)"
    unfolding order_inv_def by blast
  show ?thesis
  proof (cases e)
    case (Hook ev)
    then show ?thesis using k unfolding order_inv_def
      by (auto simp: sys_defs session_order_append split: all_splits key.splits)
  next
    case (Start_thread device)
    then show ?thesis using k unfolding order_inv_def
      by (auto simp: sys_defs Let_def split: all_splits)
  next
    case (Data d)
    then show ?thesis using k unfolding order_inv_def
      by (auto simp: sys_defs Let_def session_order_append split: all_splits)
  next
    case Stop_thread
    then show ?thesis using k unfolding order_inv_def
      by (auto simp: sys_defs Let_def split: all_splits)
  next
    case (Worker_done i outcome)
    show ?thesis
    proof (cases "i < length (workers s)")
      case False
      then show ?thesis using assms Worker_done by (simp add: step_def)
    next
      case True
      then have kpos: "0 < k" using k(2) by auto
      have len: "length (take i (workers s) @ drop (Suc i) (workers s)) = length (workers s) - 1"
        using True by auto
      show ?thesis using k kpos True Worker_done len unfolding order_inv_def
        by (auto simp: sys_defs Let_def session_order_append split: all_splits)
    qed
  next
    case (Set_active_model path)
    then show ?thesis using assms unfolding order_inv_def by (simp add: step_def)
  qed
qed

lemma run_order_inv: "order_inv s \<Longrightarrow> order_inv (run lib es s)"
  by (induction es arbitrary: s) (auto simp: step_order_inv)

lemma init_order_inv: "order_inv init"
  by (simp add: order_inv_def init_def)

subsection \<open>A recording whose threads run in turn\<close>

text \<open>
  While recording, with no thread waiting and without a toggle, the stream stays and the
  buffer grows by the samples of the events.
\<close>

lemma capturing_run:
  assumes "\<forall>e\<in>set mid. e \<noteq> toggle" "is_recording s" "starting s = 0" "stopping s = 0"
    "\<not> poisoned (run lib mid s)"
  shows "is_recording (run lib mid s) \<and> starting (run lib mid s) = 0 \<and>
         stopping (run lib mid s) = 0 \<and> stream (run lib mid s) = stream s \<and>
         buffer (run lib mid s) = buffer s @ session_samples (stream s) mid"
  using assms
proof (induction mid arbitrary: s)
  case Nil
  then show ?case by (cases "stream s") auto
next
  case (Cons e mid)
  have np: "\<not> poisoned (step lib e s)"
    using Cons.prems(5) run_poisoned[of "step lib e s" lib mid] by auto
  then have nps: "\<not> poisoned s" using step_poisoned by blast
  have st: "is_recording (step lib e s) \<and> starting (step lib e s) = 0 \<and>
      stopping (step lib e s) = 0 \<and> stream (step lib e s) = stream s \<and>
      buffer (step lib e s) = buffer s @ session_samples (stream s) [e]"
    using Cons.prems(1-4) np nps
    by (cases e; cases "stream s") (auto simp: sys_defs Let_def split: all_splits key.splits)
  have "is_recording (run lib mid (step lib e s)) \<and> starting (run lib mid (step lib e s)) = 0 \<and>
        stopping (run lib mid (step lib e s)) = 0 \<and>
        stream (run lib mid (step lib e s)) = stream (step lib e s) \<and>
        buffer (run lib mid (step lib e s))
          = buffer (step lib e s) @ session_samples (stream (step lib e s)) mid"
    using Cons.IH[of "step lib e s"] Cons.prems st by simp
  moreover have "session_samples (stream s) [e] @ session_samples (stream s) mid
                   = session_samples (stream s) (e # mid)"
    by (cases e; cases "stream s") auto
  ultimately show ?case using st by simp
qed

text \<open>
  From a quiet state, a recording whose capture thread runs before the first samples and
  whose worker runs before the next toggle hands the worker the samples of that recording
  and nothing else, and ends in a quiet state.
\<close>

lemma orderly_recording_gets_only_its_samples:
  assumes "quiet s"
    and "\<forall>e\<in>set mid. e \<noteq> toggle"
    and "\<not> poisoned (run lib (toggle # Start_thread device # mid @ [toggle, Stop_thread]) s)"
  shows "workers (run lib (toggle # Start_thread device # mid @ [toggle, Stop_thread]) s)
           = workers (run lib mid (step lib (Start_thread device) (step lib toggle s)))
             @ [session_samples device mid] \<and>
         quiet (run lib (toggle # Start_thread device # mid @ [toggle, Stop_thread]) s)"
proof -
  let ?t = "step lib (Start_thread device) (step lib toggle s)"
  let ?u = "run lib mid ?t"
  have fin: "run lib (toggle # Start_thread device # mid @ [toggle, Stop_thread]) s
               = step lib Stop_thread (step lib toggle ?u)"
    by (simp add: run_append)
  have npu: "\<not> poisoned ?u" using assms(3) fin step_poisoned by metis
  have t: "is_recording ?t \<and> starting ?t = 0 \<and> stopping ?t = 0 \<and> buffer ?t = [] \<and>
           stream ?t = device"
    using assms(1) by (auto simp: quiet_def sys_defs Let_def split: option.splits)
  from capturing_run[OF assms(2) _ _ _ npu] t
  have u: "is_recording ?u \<and> starting ?u = 0 \<and> stopping ?u = 0 \<and>
           buffer ?u = session_samples device mid"
    by simp
  then show ?thesis using npu unfolding fin
    by (simp add: quiet_def sys_defs Let_def)
qed

lemma init_quiet: "quiet init"
  by (simp add: quiet_def init_def)

subsection \<open>The length of the resampled signal\<close>

lemma round_nonneg: "0 \<le> x \<Longrightarrow> 0 \<le> round (x::real)"
  by (simp add: round_def)

text \<open>The length in integer arithmetic.\<close>

lemma resample_len_div:
  assumes "0 < s"
  shows "resample_len n s t = (2 * n * t + s) div (2 * s)"
proof -
  have "real n * real t / real s + 1 / 2 = real (2 * n * t + s) / real (2 * s)"
    using assms by (simp add: field_simps)
  then have "round (real n * real t / real s) = \<lfloor>real (2 * n * t + s) / real (2 * s)\<rfloor>"
    by (simp add: round_def)
  also have "\<dots> = int ((2 * n * t + s) div (2 * s))"
    by (simp only: floor_divide_of_nat_eq)
  finally show ?thesis by (simp add: resample_len_def)
qed

section \<open>Properties\<close>

text \<open>
  C1. The code keeps one flag \<open>is_recording\<close> and has no state for a transcription in
  progress. What holds on every event sequence: each step moves the observed state along
  \<open>walk\<close> (the cycle of the spec and, in addition, from \<open>Transcribing\<close> to
  \<open>Capturing\<close>), and \<^verbatim>\<open>recording_started\<close> was emitted once more than
  \<^verbatim>\<open>recording_stopped\<close> exactly while the flag is set, so that no two capturing periods
  overlap. The number of worker threads in flight is not bounded by one.
\<close>

theorem phase_walk:
  "walk (phase (run lib es init)) (phase (run lib (es @ [e]) init)) \<and>
   count_list (emitted (run lib (es @ [e]) init)) Recording_started
     = count_list (emitted (run lib (es @ [e]) init)) Recording_stopped
       + (if is_recording (run lib (es @ [e]) init) then 1 else 0)"
proof -
  have w: "walk (phase (run lib es init)) (phase (run lib (es @ [e]) init))"
    using step_walk[of "run lib es init" lib e] by (simp add: run_snoc)
  have c: "count_list (emitted (run lib (es @ [e]) init)) Recording_started
           = count_list (emitted (run lib (es @ [e]) init)) Recording_stopped
             + (if is_recording (run lib (es @ [e]) init) then 1 else 0)"
    by (rule run_started_stopped) (simp add: init_def)
  from w c show ?thesis by blast
qed

theorem phase_walk_witness:
  "phase (run lib0 [toggle, Start_thread (Some 1), Data [1], toggle] init) = Transcribing \<and>
   phase (run lib0 ([toggle, Start_thread (Some 1), Data [1], toggle] @ [toggle]) init) = Capturing \<and>
   walk (phase (run lib0 [toggle, Start_thread (Some 1), Data [1], toggle] init))
        (phase (run lib0 ([toggle, Start_thread (Some 1), Data [1], toggle] @ [toggle]) init)) \<and>
   count_list (emitted (run lib0 ([toggle, Start_thread (Some 1), Data [1], toggle] @ [toggle]) init))
     Recording_started = 2"
proof -
  have a: "phase (run lib0 [toggle, Start_thread (Some 1), Data [1], toggle] init) = Transcribing"
    by (simp add: phase_def sys_defs init_def)
  have b: "phase (run lib0 ([toggle, Start_thread (Some 1), Data [1], toggle] @ [toggle]) init)
             = Capturing"
    by (simp add: phase_def sys_defs init_def)
  have c: "count_list (emitted (run lib0 ([toggle, Start_thread (Some 1), Data [1], toggle]
             @ [toggle]) init)) Recording_stopped = 1"
    by (simp add: sys_defs init_def)
  have d: "is_recording (run lib0 ([toggle, Start_thread (Some 1), Data [1], toggle] @ [toggle]) init)"
    by (simp add: sys_defs init_def)
  from phase_walk[of lib0 "[toggle, Start_thread (Some 1), Data [1], toggle]" toggle] a b c d
  show ?thesis by (simp del: run.simps)
qed

text \<open>
  The statement of the spec does not hold on the code: after a second recording is stopped
  while the worker of the first has not finished, two workers are in flight, and the third
  toggle has moved the state from \<open>Transcribing\<close> to \<open>Capturing\<close>.
\<close>

theorem overlapping_jobs_counterexample:
  "workers (run lib0 [toggle, Start_thread (Some 1), Data [1], toggle, Stop_thread,
                      toggle, Start_thread (Some 1), Data [0], toggle, Stop_thread] init)
     = [[1], [0]] \<and>
   phase (run lib0 [toggle, Start_thread (Some 1), Data [1], toggle, Stop_thread] init)
     = Transcribing \<and>
   phase (run lib0 [toggle, Start_thread (Some 1), Data [1], toggle, Stop_thread, toggle] init)
     = Capturing"
  by (simp add: phase_def sys_defs init_def)

text \<open>
  C2. A toggle while transcribing is not dropped: it starts a recording (the state becomes
  \<open>Capturing\<close>, \<^verbatim>\<open>recording_started\<close> is emitted, a capture thread is spawned). The
  step leaves the buffer, the stream, the engine and the worker threads as they are, and a
  worker that holds its copy of the buffer and finishes next emits the same event, writes
  the same clipboard and sends the same keys as without the toggle.
\<close>

theorem toggle_while_transcribing_starts_recording:
  assumes "phase s = Transcribing"
  shows "phase (step lib toggle s) = Capturing \<and>
         emitted (step lib toggle s) = emitted s @ [Recording_started] \<and>
         starting (step lib toggle s) = Suc (starting s) \<and>
         stopping (step lib toggle s) = stopping s \<and>
         workers (step lib toggle s) = workers s \<and>
         buffer (step lib toggle s) = buffer s \<and>
         stream (step lib toggle s) = stream s \<and>
         whisper (step lib toggle s) = whisper s \<and>
         (i < length (workers s) \<longrightarrow>
            drop (length (emitted (step lib toggle s)))
                 (emitted (step lib (Worker_done i outcome) (step lib toggle s)))
              = drop (length (emitted s)) (emitted (step lib (Worker_done i outcome) s)) \<and>
            clipboard (step lib (Worker_done i outcome) (step lib toggle s))
              = clipboard (step lib (Worker_done i outcome) s) \<and>
            simulated (step lib (Worker_done i outcome) (step lib toggle s))
              = simulated (step lib (Worker_done i outcome) s))"
proof -
  have nr: "\<not> is_recording s" using assms by (auto simp: phase_def split: if_splits)
  then show ?thesis
    by (auto simp: phase_def sys_defs Let_def split: all_splits)
qed

theorem toggle_while_transcribing_starts_recording_witness:
  "phase (run lib0 [Set_active_model ''ggml-base.en.bin'', toggle, Start_thread (Some 1), Data [1],
                    toggle, Stop_thread] init) = Transcribing \<and>
   emitted (step lib0 toggle
      (run lib0 [Set_active_model ''ggml-base.en.bin'', toggle, Start_thread (Some 1), Data [1],
                 toggle, Stop_thread] init))
     = [Recording_started, Audio_level 1, Recording_stopped, Recording_started] \<and>
   drop 4 (emitted (step lib0 (Worker_done 0 Set_text_ok) (step lib0 toggle
      (run lib0 [Set_active_model ''ggml-base.en.bin'', toggle, Start_thread (Some 1), Data [1],
                 toggle, Stop_thread] init))))
     = [Transcription_done [104, 105, 33]] \<and>
   drop 3 (emitted (step lib0 (Worker_done 0 Set_text_ok)
      (run lib0 [Set_active_model ''ggml-base.en.bin'', toggle, Start_thread (Some 1), Data [1],
                 toggle, Stop_thread] init)))
     = [Transcription_done [104, 105, 33]]"
proof -
  let ?s = "run lib0 [Set_active_model ''ggml-base.en.bin'', toggle, Start_thread (Some 1), Data [1],
                      toggle, Stop_thread] init"
  have e: "emitted ?s = [Recording_started, Audio_level 1, Recording_stopped]"
    by (simp add: sys_defs init_def lib0_def compute_rms_def)
  have w: "workers ?s = [[1]]"
    by (simp add: sys_defs init_def lib0_def)
  have p: "phase ?s = Transcribing"
    by (simp add: phase_def sys_defs init_def lib0_def)
  have i: "0 < length (workers ?s)" using w by simp
  have d: "drop 3 (emitted (step lib0 (Worker_done 0 Set_text_ok) ?s))
             = [Transcription_done [104, 105, 33]]"
    by (simp add: sys_defs init_def lib0_def compute_rms_def trim_def is_whitespace_def)
  from toggle_while_transcribing_starts_recording[OF p, of lib0 0 Set_text_ok] i
  have t: "emitted (step lib0 toggle ?s) = emitted ?s @ [Recording_started]"
    and k: "drop (length (emitted (step lib0 toggle ?s)))
              (emitted (step lib0 (Worker_done 0 Set_text_ok) (step lib0 toggle ?s)))
            = drop (length (emitted ?s)) (emitted (step lib0 (Worker_done 0 Set_text_ok) ?s))"
    by blast+
  have t4: "emitted (step lib0 toggle ?s)
              = [Recording_started, Audio_level 1, Recording_stopped, Recording_started]"
    using t e by simp
  have "length (emitted (step lib0 toggle ?s)) = 4" "length (emitted ?s) = 3"
    unfolding t4 e by simp_all
  with k d have "drop 4 (emitted (step lib0 (Worker_done 0 Set_text_ok) (step lib0 toggle ?s)))
                   = [Transcription_done [104, 105, 33]]"
    by (simp only:)
  with p t4 d show ?thesis by blast
qed

text \<open>
  The statement of the spec does not hold on the code: the toggle received while
  transcribing changes the state and emits an event. And a worker that has not yet taken
  the lock gets the samples of the recording that the toggle started: \<open>[1, 0]\<close> with the
  toggle, \<open>[1]\<close> without.
\<close>

theorem toggle_while_transcribing_counterexample:
  "phase (run lib0 [toggle, toggle] init) = Transcribing \<and>
   phase (step lib0 toggle (run lib0 [toggle, toggle] init)) = Capturing \<and>
   emitted (run lib0 [toggle, toggle] init) = [Recording_started, Recording_stopped] \<and>
   emitted (step lib0 toggle (run lib0 [toggle, toggle] init))
     = [Recording_started, Recording_stopped, Recording_started] \<and>
   workers (run lib0 [toggle, Start_thread (Some 1), Data [1], toggle, Stop_thread] init) = [[1]] \<and>
   workers (run lib0 [toggle, Start_thread (Some 1), Data [1], toggle,
                      toggle, Start_thread (Some 1), Data [0], Stop_thread] init) = [[1, 0]]"
  by (simp add: phase_def sys_defs init_def)

text \<open>
  C3. On every event sequence the emitted events pass \<open>session_order\<close> and begin with
  \<^verbatim>\<open>recording_started\<close>: starts and stops alternate, and a final event comes only for a
  stopped recording that has not had one. Unless the lock is poisoned, the stopped
  recordings that wait for their final event are the worker threads in flight, each of
  which emits one final event when it finishes. Events of a later recording may come
  before the final event of an earlier one.
\<close>

theorem notification_order:
  "session_order (False, 0) (emitted (run lib es init)) \<noteq> None \<and>
   first_is_start (emitted (run lib es init)) \<and>
   (\<not> poisoned (run lib es init) \<longrightarrow>
      session_order (False, 0) (emitted (run lib es init))
        = Some (is_recording (run lib es init),
                stopping (run lib es init) + length (workers (run lib es init))))"
  using run_order_inv[OF init_order_inv, of lib es] run_fresh_inv[OF init_fresh_inv, of lib es]
  by (auto simp: order_inv_def fresh_inv_def)

theorem notification_order_witness:
  "session_order (False, 0)
     (emitted (run lib0 [toggle, Start_thread (Some 2), Data [0, 1], toggle, Stop_thread, toggle,
                         toggle] init)) = Some (False, 2) \<and>
   emitted (run lib0 [toggle, Start_thread (Some 2), Data [0, 1], toggle, Stop_thread, toggle,
                      toggle] init)
     = [Recording_started, Audio_level 0, Recording_stopped, Recording_started, Recording_stopped]"
proof -
  let ?s = "run lib0 [toggle, Start_thread (Some 2), Data [0, 1], toggle, Stop_thread, toggle,
                      toggle] init"
  have "\<not> poisoned ?s" "\<not> is_recording ?s" "workers ?s = [[0]]" "stopping ?s = 1"
    by (simp_all add: sys_defs init_def)
  moreover have "emitted ?s
     = [Recording_started, Audio_level 0, Recording_stopped, Recording_started, Recording_stopped]"
    by (simp add: sys_defs init_def compute_rms_def)
  ultimately show ?thesis
    using notification_order[of lib0 "[toggle, Start_thread (Some 2), Data [0, 1], toggle,
                                       Stop_thread, toggle, toggle]"]
    by simp
qed

text \<open>
  The statement of the spec does not hold on the code: the second toggle emits
  \<^verbatim>\<open>recording_stopped\<close> and spawns the worker; before the worker has dropped the stream, the
  data callback emits a level; the third toggle starts a recording before the first has
  had its final event.
\<close>

theorem notification_order_counterexample:
  "emitted (run lib0 [toggle, Start_thread (Some 2), toggle, Data [0, 1], toggle] init)
     = [Recording_started, Recording_stopped, Audio_level 0, Recording_started]"
  by (simp add: sys_defs init_def compute_rms_def)

text \<open>
  C4. For positive rates the resampled signal has \<open>round (len x * targetRate / sourceRate)\<close>
  samples; for equal rates it is the input; for no input it is empty; from 48000 Hz to
  16000 Hz it has \<open>round (len x / 3)\<close> samples. (As a function of its arguments the result
  is the same for the same input.)
\<close>

theorem resample_length:
  assumes "0 < source_rate" and "0 < target_rate"
  shows "int (length (resample interpolate x source_rate target_rate))
           = round (real (length x) * real target_rate / real source_rate) \<and>
         resample interpolate x source_rate source_rate = x \<and>
         resample interpolate [] source_rate target_rate = [] \<and>
         int (length (resample interpolate x 48000 16000)) = round (real (length x) / 3)"
proof -
  have nn: "0 \<le> round (real n * real t / real s)" for n t s
    by (rule round_nonneg) simp
  have a: "int (length (resample interpolate x source_rate target_rate))
           = round (real (length x) * real target_rate / real source_rate)"
  proof (cases "source_rate = target_rate")
    case True
    then show ?thesis using assms by (simp add: resample_def)
  next
    case False
    then show ?thesis using nn by (simp add: resample_def resample_len_def)
  qed
  have b: "resample interpolate [] source_rate target_rate = []"
    by (simp add: resample_def resample_len_def)
  have "int (length (resample interpolate x 48000 16000))
          = round (real (length x) * real 16000 / real 48000)"
    using nn[of "length x" 16000 48000] by (simp add: resample_def resample_len_def)
  then have c: "int (length (resample interpolate x 48000 16000)) = round (real (length x) / 3)"
    by simp
  show ?thesis using a b c by (simp add: resample_def)
qed

theorem resample_length_witness:
  "length (resample (\<lambda>x s t i. 0) [1, 2, 3, 4, 5] 48000 16000) = 2 \<and>
   round (5 / 3 :: real) = 2 \<and>
   resample (\<lambda>x s t i. 0) [1, 2, 3, 4, 5] 16000 16000 = [1, 2, 3, 4, 5] \<and>
   resample (\<lambda>x s t i. 0) [] 44100 16000 = []"
proof -
  have p: "(0::nat) < 48000" "(0::nat) < 16000" "(0::nat) < 44100" by simp_all
  have r: "round (5 / 3 :: real) = 2" by (simp add: round_def)
  have "int (length (resample (\<lambda>x s t i. 0) [1, 2, 3, 4, 5] 48000 16000))
          = round (real (length [1, 2, 3, 4, 5::real]) / 3)"
    using resample_length[OF p(1) p(2), of "\<lambda>x s t i. 0" "[1, 2, 3, 4, 5]"] by blast
  with r have "length (resample (\<lambda>x s t i. 0) [1, 2, 3, 4, 5] 48000 16000) = 2" by simp
  moreover have "resample (\<lambda>x s t i. 0) [1, 2, 3, 4, 5] 16000 16000 = [1, 2, 3, 4, 5]"
    using resample_length[OF p(2) p(2), of "\<lambda>x s t i. 0" "[1, 2, 3, 4, 5]"] by blast
  moreover have "resample (\<lambda>x s t i. 0) [] 44100 16000 = []"
    using resample_length[OF p(3) p(2), of "\<lambda>x s t i. 0" "[]"] by blast
  ultimately show ?thesis using r by simp
qed



text \<open>
  C6. If \<^verbatim>\<open>set_active_model\<close> fails for a path, it returns the error and the engine state
  is the one before the call: no model stays no model, and a model loaded before stays
  loaded (the application state as a whole is unchanged, so transcription runs as before).
\<close>

theorem set_active_model_failure_keeps_state:
  "fst (set_active_model lib path ws) = Inl e \<Longrightarrow>
     snd (set_active_model lib path ws) = ws \<and>
     step lib (Set_active_model path) (s\<lparr>whisper := ws\<rparr>) = s\<lparr>whisper := ws\<rparr>"
  by (auto simp: set_active_model_def step_def split: sum.splits)

theorem set_active_model_failure_keeps_state_witness:
  "fst (set_active_model lib0 ''missing.bin''
          \<lparr>ctx = Some (WhisperContext ''ggml-base.en.bin''), model_path = Some ''ggml-base.en.bin''\<rparr>)
     = Inl ''failed to open model'' \<and>
   snd (set_active_model lib0 ''missing.bin''
          \<lparr>ctx = Some (WhisperContext ''ggml-base.en.bin''), model_path = Some ''ggml-base.en.bin''\<rparr>)
     = \<lparr>ctx = Some (WhisperContext ''ggml-base.en.bin''), model_path = Some ''ggml-base.en.bin''\<rparr> \<and>
   snd (set_active_model lib0 ''missing.bin'' (whisper init)) = whisper init"
proof -
  have f: "fst (set_active_model lib0 ''missing.bin'' ws) = Inl ''failed to open model''" for ws
    by (simp add: set_active_model_def lib0_def)
  show ?thesis
    using f set_active_model_failure_keeps_state[OF f, of _ init] by simp
qed


text \<open>
  C7. When the transcription gives the empty text, \<^verbatim>\<open>transcription_done\<close> is emitted with
  the empty payload, and the worker treats the text like any other: it writes it to the
  clipboard (if the clipboard takes it) and sends the keys of the paste gesture.
\<close>

theorem empty_text_is_pasted:
  assumes "run_whisper_on_buffer lib buf s = (Some [], s1)"
  shows "emitted (worker_finish lib outcome buf s) = emitted s @ [Transcription_done []] \<and>
         simulated (worker_finish lib outcome buf s) = simulated s @ paste_keys \<and>
         clipboard (worker_finish lib outcome buf s)
           = (if outcome = Set_text_ok then Some [] else clipboard s)"
  using assms
  by (auto simp: sys_defs paste_keys_def Let_def split: all_splits)

theorem empty_text_is_pasted_witness:
  "fst (run_whisper_on_buffer lib0 [0, 0]
     (init\<lparr>whisper := \<lparr>ctx = Some (WhisperContext ''ggml-base.en.bin''), model_path = None\<rparr>\<rparr>))
     = Some [] \<and>
   emitted (worker_finish lib0 Set_text_ok [0, 0]
     (init\<lparr>whisper := \<lparr>ctx = Some (WhisperContext ''ggml-base.en.bin''), model_path = None\<rparr>\<rparr>))
     = [Transcription_done []] \<and>
   simulated (worker_finish lib0 Set_text_ok [0, 0]
     (init\<lparr>whisper := \<lparr>ctx = Some (WhisperContext ''ggml-base.en.bin''), model_path = None\<rparr>\<rparr>))
     = paste_keys"
proof -
  let ?s = "init\<lparr>whisper := \<lparr>ctx = Some (WhisperContext ''ggml-base.en.bin''), model_path = None\<rparr>\<rparr>"
  have r: "run_whisper_on_buffer lib0 [0, 0] ?s = (Some [], ?s\<lparr>inferences := [[0, 0]]\<rparr>)"
    by (simp add: run_whisper_on_buffer_def loaded_ctx_def lib0_def init_def trim_def
        is_whitespace_def)
  have "emitted ?s = []" "simulated ?s = []" by (simp_all add: init_def)
  then show ?thesis
    using r empty_text_is_pasted[OF r, of Set_text_ok] by simp
qed

text \<open>
  The statement of the spec does not hold on the code: a recording of silence with a model
  loaded gives the empty text; the clipboard is written and the four key events are sent.
\<close>

theorem empty_text_counterexample:
  "emitted (run lib0 [Set_active_model ''ggml-base.en.bin'', toggle, Start_thread (Some 1),
                      Data [0, 0], toggle, Stop_thread, Worker_done 0 Set_text_ok] init)
     = [Recording_started, Audio_level 0, Recording_stopped, Transcription_done []] \<and>
   clipboard (run lib0 [Set_active_model ''ggml-base.en.bin'', toggle, Start_thread (Some 1),
                        Data [0, 0], toggle, Stop_thread, Worker_done 0 Set_text_ok] init)
     = Some [] \<and>
   simulated (run lib0 [Set_active_model ''ggml-base.en.bin'', toggle, Start_thread (Some 1),
                        Data [0, 0], toggle, Stop_thread, Worker_done 0 Set_text_ok] init)
     = [KeyPress ControlLeft, KeyPress KeyV, KeyRelease KeyV, KeyRelease ControlLeft]"
  by (simp add: sys_defs init_def lib0_def trim_def is_whitespace_def compute_rms_def)

text \<open>
  C8. The spec has the paste gesture only after a successful write of the clipboard, and a
  failed write reported. On the code, \<^verbatim>\<open>copy_to_clipboard\<close> discards the result of the
  write and \<^verbatim>\<open>copy_to_clipboard_and_paste\<close> sends the keys all the same: here the write of
  \<^verbatim>\<open>"hi!"\<close> fails, the clipboard stays as it was, the four key events are sent, and the
  only event emitted for the text is \<^verbatim>\<open>transcription_done\<close>.
\<close>

theorem paste_after_failed_write:
  "emitted (run lib0 [Set_active_model ''ggml-base.en.bin'', toggle, Start_thread (Some 1),
                      Data [1], toggle, Stop_thread, Worker_done 0 Set_text_failed] init)
     = [Recording_started, Audio_level 1, Recording_stopped, Transcription_done [104, 105, 33]] \<and>
   clipboard (run lib0 [Set_active_model ''ggml-base.en.bin'', toggle, Start_thread (Some 1),
                        Data [1], toggle, Stop_thread, Worker_done 0 Set_text_failed] init)
     = None \<and>
   simulated (run lib0 [Set_active_model ''ggml-base.en.bin'', toggle, Start_thread (Some 1),
                        Data [1], toggle, Stop_thread, Worker_done 0 Set_text_failed] init)
     = [KeyPress ControlLeft, KeyPress KeyV, KeyRelease KeyV, KeyRelease ControlLeft]"
  by (simp add: sys_defs init_def lib0_def trim_def is_whitespace_def compute_rms_def)

text \<open>
  C9. If the samples handed to the data callback lie in \<open>[-1, 1]\<close>, every
  \<^verbatim>\<open>audio_level\<close> emitted lies in \<open>[0, 1]\<close>; if they are all zero, every level emitted
  is 0; and in any state, a data callback that leaves only zeros in the buffer emits the
  level 0 if it emits anything. (Samples and levels are reals here; the level is computed
  over the whole buffer of the recording.)
\<close>

theorem audio_level_in_unit_interval:
  "((\<forall>e\<in>set es. \<forall>x\<in>set (samples_of e). - 1 \<le> x \<and> x \<le> 1) \<longrightarrow>
      (\<forall>x. Audio_level x \<in> set (emitted (run lib es init)) \<longrightarrow> 0 \<le> x \<and> x \<le> 1)) \<and>
   ((\<forall>e\<in>set es. \<forall>x\<in>set (samples_of e). x = 0) \<longrightarrow>
      (\<forall>x. Audio_level x \<in> set (emitted (run lib es init)) \<longrightarrow> x = 0)) \<and>
   ((\<forall>x\<in>set (buffer (step lib (Data d) s)). x = 0) \<longrightarrow>
      emitted (step lib (Data d) s) = emitted s \<or>
      emitted (step lib (Data d) s) = emitted s @ [Audio_level 0])"
proof -
  have "buffer init = []" "emitted init = []" by (simp_all add: init_def)
  then have a: "(\<forall>e\<in>set es. \<forall>x\<in>set (samples_of e). - 1 \<le> x \<and> x \<le> 1) \<longrightarrow>
      (\<forall>x. Audio_level x \<in> set (emitted (run lib es init)) \<longrightarrow> 0 \<le> x \<and> x \<le> 1)"
    and b: "(\<forall>e\<in>set es. \<forall>x\<in>set (samples_of e). x = 0) \<longrightarrow>
      (\<forall>x. Audio_level x \<in> set (emitted (run lib es init)) \<longrightarrow> x = 0)"
    using run_levels_range[of es init lib] run_levels_silence[of es init lib] by simp_all
  have c: "emitted (step lib (Data d) s) = emitted s \<or>
           emitted (step lib (Data d) s) = emitted s @ [Audio_level 0]"
    if z: "\<forall>x\<in>set (buffer (step lib (Data d) s)). x = 0"
  proof (cases "stream s")
    case None
    then show ?thesis by (simp add: step_def)
  next
    case (Some ch)
    show ?thesis
    proof (cases "poisoned s \<or> ch = 0")
      case True
      then show ?thesis using Some by (auto simp: step_def data_callback_def)
    next
      case False
      then have "buffer (step lib (Data d) s) = buffer s @ first_channel ch d"
        using Some by (simp add: step_def data_callback_def emit_all_def Let_def)
      with z have "compute_rms (buffer s @ first_channel ch d) = 0"
        using compute_rms_silence[of "buffer s @ first_channel ch d"] by simp
      then show ?thesis using Some False
        by (simp add: step_def data_callback_def emit_all_def Let_def)
    qed
  qed
  from a b c show ?thesis by blast
qed

theorem audio_level_in_unit_interval_witness:
  "emitted (run lib0 [toggle, Start_thread (Some 2), Data [0, 1, - 1, 1], Data [1, 0]] init)
     = [Recording_started, Audio_level (sqrt (1 / 2)), Audio_level (sqrt (2 / 3))] \<and>
   0 \<le> sqrt (1 / 2) \<and> sqrt (1 / 2) \<le> (1::real) \<and>
   0 \<le> sqrt (2 / 3) \<and> sqrt (2 / 3) \<le> (1::real) \<and>
   emitted (run lib0 [toggle, Start_thread (Some 2), Data [0, 0, 0, 0]] init)
     = [Recording_started, Audio_level 0] \<and>
   emitted (step lib0 (Data [0, 1])
      (run lib0 [toggle, Start_thread (Some 2), Data [1, 1], toggle, Stop_thread, toggle,
                 Start_thread (Some 2)] init))
     = emitted (run lib0 [toggle, Start_thread (Some 2), Data [1, 1], toggle, Stop_thread, toggle,
                          Start_thread (Some 2)] init)
       @ [Audio_level 0]"
proof -
  let ?loud = "[toggle, Start_thread (Some 2), Data [0, 1, - 1, 1], Data [1, 0]]"
  let ?silent = "[toggle, Start_thread (Some 2), Data [0, 0, 0, 0]]"
  let ?s = "run lib0 [toggle, Start_thread (Some 2), Data [1, 1], toggle, Stop_thread, toggle,
                      Start_thread (Some 2)] init"
  have h1: "\<forall>e\<in>set ?loud. \<forall>x\<in>set (samples_of e). - 1 \<le> x \<and> x \<le> 1"
    by simp
  have h2: "\<forall>e\<in>set ?silent. \<forall>x\<in>set (samples_of e). x = 0"
    by simp
  have h3: "\<forall>x\<in>set (buffer (step lib0 (Data [0, 1]) ?s)). x = 0"
    by (simp add: sys_defs init_def)
  have e1: "emitted (run lib0 ?loud init)
     = [Recording_started, Audio_level (sqrt (1 / 2)), Audio_level (sqrt (2 / 3))]"
    by (simp add: sys_defs init_def compute_rms_def)
  have "\<exists>x. emitted (run lib0 ?silent init) = [Recording_started, Audio_level x]"
    by (simp add: sys_defs init_def)
  then obtain x where e2: "emitted (run lib0 ?silent init) = [Recording_started, Audio_level x]"
    by blast
  from audio_level_in_unit_interval[of ?silent lib0] h2 e2 have "x = 0"
    by simp
  with e2 have e2': "emitted (run lib0 ?silent init) = [Recording_started, Audio_level 0]"
    by simp
  from audio_level_in_unit_interval[of ?loud lib0] h1 e1
  have r: "0 \<le> sqrt (1 / 2) \<and> sqrt (1 / 2) \<le> (1::real) \<and>
           0 \<le> sqrt (2 / 3) \<and> sqrt (2 / 3) \<le> (1::real)"
    by simp
  have "emitted (step lib0 (Data [0, 1]) ?s) \<noteq> emitted ?s"
    by (simp add: sys_defs init_def)
  with audio_level_in_unit_interval[of "[]" lib0 "[0, 1]" ?s] h3
  have e3: "emitted (step lib0 (Data [0, 1]) ?s) = emitted ?s @ [Audio_level 0]"
    by blast
  from e1 r e2' e3 show ?thesis by blast
qed

text \<open>
  C10. The worker copies the buffer and clears it, which keeps the samples of one recording
  out of the next when the threads run in turn (\<open>orderly_recording_gets_only_its_samples\<close>).
  Nothing in the code orders the capture thread and the worker. Here the first recording is
  stopped, and its worker runs, before its capture thread has stored the stream; the
  stream then delivers the sample \<open>1\<close> while nothing is recorded; the worker of the second
  recording, during which the sample \<open>0\<close> came, gets \<open>[1, 0]\<close>.
\<close>

theorem late_stream_leaks_into_next_recording:
  "workers (run lib0 [toggle, toggle, Stop_thread, Start_thread (Some 1), Data [1],
                      toggle, Start_thread (Some 1), Data [0], toggle, Stop_thread] init)
     = [[], [1, 0]] \<and>
   emitted (run lib0 [toggle, toggle, Stop_thread, Start_thread (Some 1), Data [1]] init)
     = [Recording_started, Recording_stopped, Audio_level 1] \<and>
   is_recording (run lib0 [toggle, toggle, Stop_thread, Start_thread (Some 1), Data [1]] init)
     = False \<and>
   buffer (run lib0 [toggle, toggle, Stop_thread, Start_thread (Some 1), Data [1]] init) = [1]"
  by (simp add: sys_defs init_def compute_rms_def)

end
